theory Spec2Isabelle
  imports Main "HOL-Library.Word"
begin

section \<open>Data model of main.go\<close>

text \<open>
  Go's \<open>int64\<close> is a 64-bit word read as two's complement (\<open>sint\<close>); \<open>+\<close> and
  \<open>-\<close> wrap around as in Go. A \<open>byte\<close> holding a rune literal such as \<open>'u'\<close> is a
  \<open>char\<close>.
\<close>

type_synonym int64 = "64 word"

record Point =
  x :: int64
  y :: int64

record Snake =
  nextPoint :: Point
  growth :: int64
  direction :: char
  nextDirection :: char
  head :: Point
  tail :: "Point list"

text \<open>\<open>const size = 10\<close>\<close>

definition size' :: nat where
  "size' = 10"

text \<open>
  The run-time panic of a slice expression whose bound is out of range, and the
  failure of a call to return (the unbounded recursion of \<open>generateNextPoint\<close>
  exceeding the recursion depth given to it).
\<close>

datatype error = SliceBoundsOutOfRange | NoReturn

section \<open>The random source\<close>

text \<open>
  The global source of \<open>math/rand\<close> is the sequence of raw values it is going to
  produce. \<open>rand.Int63n(n)\<close> returns a value in \<open>[0, n)\<close>: the head of the
  sequence reduced modulo \<open>n\<close>, so that every value of \<open>[0, n)\<close> can be returned
  and nothing else; the source then moves on by one value (\<open>consume\<close>). The one
  call site passes \<open>n = size - 1 = 9\<close>, so the panic of \<open>Int63n\<close> on \<open>n \<le> 0\<close> does
  not arise.
\<close>

type_synonym rand = "nat \<Rightarrow> nat"

definition Int63n :: "nat \<Rightarrow> rand \<Rightarrow> int64" where
  "Int63n n r = of_nat (r 0 mod n)"

definition consume :: "rand \<Rightarrow> rand" where
  "consume r = (\<lambda>i. r (Suc i))"

section \<open>The methods of Snake\<close>

text \<open>
  \<open>move\<close> (lines 76-116). \<open>s.tail[:len(s.tail)-delta]\<close> panics when the bound is
  negative, that is when the tail is empty and \<open>delta = 1\<close>; \<open>append\<close> onto the
  fresh one-element slice builds a new list. The \<open>switch\<close> has no default: any
  other byte leaves \<open>dX = dY = 0\<close>.
\<close>

definition move :: "Snake \<Rightarrow> error + Snake" where
  "move s0 =
    (let delta = (if 0 < sint (growth s0) then 0 else 1 :: int);
         s1 = (if 0 < sint (growth s0) then s0\<lparr>growth := growth s0 - 1\<rparr> else s0)
     in if int (length (tail s1)) - delta < 0 then Inl SliceBoundsOutOfRange
        else
          let s2 = s1\<lparr>tail := head s1 # take (nat (int (length (tail s1)) - delta)) (tail s1)\<rparr>;
              s3 = s2\<lparr>direction := nextDirection s2\<rparr>;
              dY = (if direction s3 = CHR ''u'' then - 1
                    else if direction s3 = CHR ''d'' then 1 else 0 :: int64);
              dX = (if direction s3 = CHR ''u'' then 0
                    else if direction s3 = CHR ''d'' then 0
                    else if direction s3 = CHR ''l'' then - 1
                    else if direction s3 = CHR ''r'' then 1 else 0 :: int64);
              s4 = s3\<lparr>head := (head s3)\<lparr>y := y (head s3) + dY\<rparr>\<rparr>;
              s5 = s4\<lparr>head := (head s4)\<lparr>x := x (head s4) + dX\<rparr>\<rparr>;
              s6 = (if 10 < sint (y (head s5)) then s5\<lparr>head := (head s5)\<lparr>y := 1\<rparr>\<rparr> else s5);
              s7 = (if sint (y (head s6)) < 1 then s6\<lparr>head := (head s6)\<lparr>y := 10\<rparr>\<rparr> else s6);
              s8 = (if 10 < sint (x (head s7)) then s7\<lparr>head := (head s7)\<lparr>x := 1\<rparr>\<rparr> else s7);
              s9 = (if sint (x (head s8)) < 1 then s8\<lparr>head := (head s8)\<lparr>x := 10\<rparr>\<rparr> else s8)
          in Inr s9)"

text \<open>
  \<open>generateNextPoint\<close> (lines 118-131) calls itself, once when the drawn cell is
  the head and once for every tail cell that equals the current \<open>nextPoint\<close>
  while the \<open>range\<close> loop goes on (\<open>rangeTail\<close>, over the cells of \<open>s.tail\<close> still
  to visit). The first argument bounds the depth of the recursion: a call with depth
  \<open>0\<close> does not return (\<open>None\<close>). The two coordinates are drawn in the order of
  the struct literal.
\<close>

fun generateNextPoint :: "nat \<Rightarrow> Snake \<Rightarrow> rand \<Rightarrow> (Snake \<times> rand) option"
  and rangeTail :: "nat \<Rightarrow> Point list \<Rightarrow> Snake \<Rightarrow> rand \<Rightarrow> (Snake \<times> rand) option"
where
  "generateNextPoint 0 s r = None"
| "generateNextPoint (Suc k) s r =
    (let s1 = s\<lparr>nextPoint := \<lparr>x = Int63n (size' - 1) r + 1,
                              y = Int63n (size' - 1) (consume r) + 1\<rparr>\<rparr>;
         r1 = consume (consume r)
     in case (if nextPoint s1 = head s1 then generateNextPoint k s1 r1 else Some (s1, r1)) of
          None \<Rightarrow> None
        | Some (s2, r2) \<Rightarrow> rangeTail k (tail s2) s2 r2)"
| "rangeTail k [] s r = Some (s, r)"
| "rangeTail k (point # points) s r =
    (if point = nextPoint s
     then (case generateNextPoint k s r of
             None \<Rightarrow> None
           | Some (s1, r1) \<Rightarrow> rangeTail k points s1 r1)
     else rangeTail k points s r)"

text \<open>\<open>checkPoint\<close> (lines 133-138).\<close>

definition checkPoint :: "nat \<Rightarrow> Snake \<Rightarrow> rand \<Rightarrow> (Snake \<times> rand) option" where
  "checkPoint k s r =
    (if head s = nextPoint s then generateNextPoint k (s\<lparr>growth := growth s + 1\<rparr>) r
     else Some (s, r))"

text \<open>
  \<open>checkCollisions\<close> (lines 140-148): \<open>collisionIndex\<close> is the \<open>range\<close> loop, giving
  the index at which it breaks.
\<close>

fun collisionIndex :: "Point \<Rightarrow> Point list \<Rightarrow> nat \<Rightarrow> nat option" where
  "collisionIndex h [] i = None"
| "collisionIndex h (point # points) i =
    (if point = h then Some i else collisionIndex h points (Suc i))"

definition checkCollisions :: "Snake \<Rightarrow> Snake" where
  "checkCollisions s =
    (case collisionIndex (head s) (tail s) 0 of
       None \<Rightarrow> s
     | Some i \<Rightarrow> s\<lparr>tail := take i (tail s)\<rparr>)"

text \<open>The package-level variable \<open>snake\<close> (lines 150-162); \<open>nextPoint\<close> is the zero value.\<close>

definition snake :: Snake where
  "snake = \<lparr>nextPoint = \<lparr>x = 0, y = 0\<rparr>, growth = 0,
            direction = CHR ''u'', nextDirection = CHR ''u'',
            head = \<lparr>x = 3, y = 3\<rparr>,
            tail = [\<lparr>x = 3, y = 4\<rparr>, \<lparr>x = 3, y = 5\<rparr>, \<lparr>x = 3, y = 6\<rparr>,
                    \<lparr>x = 3, y = 7\<rparr>, \<lparr>x = 3, y = 8\<rparr>]\<rparr>"

section \<open>The loop of run\<close>

text \<open>The four keys the loop polls, and the four \<open>if\<close>s of lines 189-200.\<close>

record Keys =
  KeyLeft :: bool
  KeyRight :: bool
  KeyUp :: bool
  KeyDown :: bool

definition pollKeys :: "Keys \<Rightarrow> Snake \<Rightarrow> Snake" where
  "pollKeys win s0 =
    (let s1 = (if KeyLeft win \<and> direction s0 \<noteq> CHR ''r'' then s0\<lparr>nextDirection := CHR ''l''\<rparr> else s0);
         s2 = (if KeyRight win \<and> direction s1 \<noteq> CHR ''l'' then s1\<lparr>nextDirection := CHR ''r''\<rparr> else s1);
         s3 = (if KeyUp win \<and> direction s2 \<noteq> CHR ''d'' then s2\<lparr>nextDirection := CHR ''u''\<rparr> else s2);
         s4 = (if KeyDown win \<and> direction s3 \<noteq> CHR ''u'' then s3\<lparr>nextDirection := CHR ''d''\<rparr> else s3)
     in s4)"

text \<open>
  One tick, lines 205-207: \<open>snake.move(); snake.checkPoint(); snake.checkCollisions()\<close>
  (the spec's \<open>advance()\<close>), on the snake and the random source.
\<close>

definition advance :: "nat \<Rightarrow> Snake \<times> rand \<Rightarrow> error + Snake \<times> rand" where
  "advance k w =
    (case move (fst w) of
       Inl e \<Rightarrow> Inl e
     | Inr s1 \<Rightarrow>
        (case checkPoint k s1 (snd w) of
           None \<Rightarrow> Inl NoReturn
         | Some (s2, r2) \<Rightarrow> Inr (checkCollisions s2, r2)))"

text \<open>
  The states of \<open>run\<close> at the end of a loop iteration: the first food placement of
  line 178 on the initial snake, then any number of iterations, each polling the keys
  and, when the interval has elapsed, running one tick.
\<close>

inductive reachable :: "Snake \<times> rand \<Rightarrow> bool" where
  start: "generateNextPoint k snake r = Some w \<Longrightarrow> reachable w"
| poll: "reachable (s, r) \<Longrightarrow> reachable (pollKeys win s, r)"
| tick: "reachable w \<Longrightarrow> advance k w = Inr w' \<Longrightarrow> reachable w'"

section \<open>Characterisations used in the statements\<close>

text \<open>
  What \<open>move\<close> does to the head along one axis, written as one expression: the
  two \<open>if\<close>s of lines 104-109 (and 110-115) in sequence. The second \<open>if\<close> cannot
  fire after the first, since \<open>1 < 1\<close> is false.
\<close>

definition wrapAxis :: "int64 \<Rightarrow> int64" where
  "wrapAxis v = (if 10 < sint v then 1 else if sint v < 1 then 10 else v)"

text \<open>The \<open>switch\<close> of lines 88-101, per axis.\<close>

definition deltaX :: "char \<Rightarrow> int64" where
  "deltaX d = (if d = CHR ''l'' then - 1 else if d = CHR ''r'' then 1 else 0)"

definition deltaY :: "char \<Rightarrow> int64" where
  "deltaY d = (if d = CHR ''u'' then - 1 else if d = CHR ''d'' then 1 else 0)"

text \<open>The snake \<open>move\<close> leaves behind when its slice is in bounds, field by field.\<close>

definition moved :: "Snake \<Rightarrow> Snake" where
  "moved s = s\<lparr>growth := (if 0 < sint (growth s) then growth s - 1 else growth s),
     tail := head s # (if 0 < sint (growth s) then tail s else butlast (tail s)),
     direction := nextDirection s,
     head := (head s)\<lparr>y := wrapAxis (y (head s) + deltaY (nextDirection s)),
                       x := wrapAxis (x (head s) + deltaX (nextDirection s))\<rparr>\<rparr>"

text \<open>The cell one call of \<open>generateNextPoint\<close> draws from the source (lines 119-122).\<close>

definition drawPoint :: "rand \<Rightarrow> Point" where
  "drawPoint r = \<lparr>x = Int63n (size' - 1) r + 1, y = Int63n (size' - 1) (consume r) + 1\<rparr>"

text \<open>A cell is on the snake when it is the head or a cell of the tail.\<close>

definition onSnake :: "Snake \<Rightarrow> Point \<Rightarrow> bool" where
  "onSnake s p = (p = head s \<or> p \<in> set (tail s))"

text \<open>
  The spec's reading of food placement, as a loop: draw, reject and redraw while the
  cell is on the snake, at most \<open>k\<close> draws. It gives the first drawn cell that is not
  on the snake and the source after it, or \<open>None\<close> when the first \<open>k\<close> draws are
  all on the snake.
\<close>

fun retryDraw :: "nat \<Rightarrow> Snake \<Rightarrow> rand \<Rightarrow> (Point \<times> rand) option" where
  "retryDraw 0 s r = None"
| "retryDraw (Suc k) s r =
    (if onSnake s (drawPoint r) then retryDraw k s (consume (consume r))
     else Some (drawPoint r, consume (consume r)))"

text \<open>Storing a drawn cell as the snake's food.\<close>

definition place :: "Snake \<Rightarrow> Point \<times> rand \<Rightarrow> Snake \<times> rand" where
  "place s pr = (s\<lparr>nextPoint := fst pr\<rparr>, snd pr)"

text \<open>The four bytes the \<open>switch\<close> of \<open>move\<close> knows.\<close>

definition validDir :: "char \<Rightarrow> bool" where
  "validDir d = (d = CHR ''u'' \<or> d = CHR ''d'' \<or> d = CHR ''l'' \<or> d = CHR ''r'')"

text \<open>
  What holds of the snake at the end of every loop iteration: the tail is not empty,
  both direction bytes are among the four, at most one growth is pending, and the
  food is not on the snake.
\<close>

definition sane :: "Snake \<Rightarrow> bool" where
  "sane s = (tail s \<noteq> [] \<and> validDir (direction s) \<and> validDir (nextDirection s) \<and>
             (growth s = 0 \<or> growth s = 1) \<and> \<not> onSnake s (nextPoint s))"

text \<open>
  A finite stretch of the loop of \<open>run\<close>, as the list of what happened: the keys
  were polled (with the given keys down), or the interval had elapsed and a tick ran.
\<close>

datatype event = Poll Keys | Tick

fun run :: "nat \<Rightarrow> event list \<Rightarrow> Snake \<times> rand \<Rightarrow> error + Snake \<times> rand" where
  "run k [] w = Inr w"
| "run k (Poll win # es) w = run k es (pollKeys win (fst w), snd w)"
| "run k (Tick # es) w = (case advance k w of Inl e \<Rightarrow> Inl e | Inr w' \<Rightarrow> run k es w')"

text \<open>
  The spec's four directions, the byte each is stored as, its reverse and its key.
\<close>

datatype Direction = Up | Down | Left | Right

fun code :: "Direction \<Rightarrow> char" where
  "code Up = CHR ''u''"
| "code Down = CHR ''d''"
| "code Left = CHR ''l''"
| "code Right = CHR ''r''"

fun opposite :: "Direction \<Rightarrow> Direction" where
  "opposite Up = Down"
| "opposite Down = Up"
| "opposite Left = Right"
| "opposite Right = Left"

fun press :: "Direction \<Rightarrow> Keys" where
  "press Up = \<lparr>KeyLeft = False, KeyRight = False, KeyUp = True, KeyDown = False\<rparr>"
| "press Down = \<lparr>KeyLeft = False, KeyRight = False, KeyUp = False, KeyDown = True\<rparr>"
| "press Left = \<lparr>KeyLeft = True, KeyRight = False, KeyUp = False, KeyDown = False\<rparr>"
| "press Right = \<lparr>KeyLeft = False, KeyRight = True, KeyUp = False, KeyDown = False\<rparr>"

text \<open>
  The spec's \<open>submitDirection(d)\<close>: one pass of the polling of lines 189-200 with
  the key of \<open>d\<close> down and no other.
\<close>

definition submitDirection :: "Direction \<Rightarrow> Snake \<Rightarrow> Snake" where
  "submitDirection d s = pollKeys (press d) s"





section \<open>Facts about move\<close>

text \<open>The definitions a concrete run is computed with.\<close>

lemmas exec = advance_def move_def checkPoint_def checkCollisions_def pollKeys_def Let_def
  Int63n_def consume_def size'_def snake_def submitDirection_def

lemma wrap_stage:
  "(let s6 = (if 10 < sint (y (head s5)) then s5\<lparr>head := (head s5)\<lparr>y := 1\<rparr>\<rparr> else s5);
        s7 = (if sint (y (head s6)) < 1 then s6\<lparr>head := (head s6)\<lparr>y := 10\<rparr>\<rparr> else s6);
        s8 = (if 10 < sint (x (head s7)) then s7\<lparr>head := (head s7)\<lparr>x := 1\<rparr>\<rparr> else s7);
        s9 = (if sint (x (head s8)) < 1 then s8\<lparr>head := (head s8)\<lparr>x := 10\<rparr>\<rparr> else s8)
    in f s9) =
   f (s5\<lparr>head := (head s5)\<lparr>y := wrapAxis (y (head s5)), x := wrapAxis (x (head s5))\<rparr>\<rparr>)"
  by (simp add: Let_def wrapAxis_def)

lemma delta_stage:
  "(let dY = (if direction s3 = CHR ''u'' then - 1
              else if direction s3 = CHR ''d'' then 1 else 0 :: int64);
        dX = (if direction s3 = CHR ''u'' then 0
              else if direction s3 = CHR ''d'' then 0
              else if direction s3 = CHR ''l'' then - 1
              else if direction s3 = CHR ''r'' then 1 else 0 :: int64);
        s4 = s3\<lparr>head := (head s3)\<lparr>y := y (head s3) + dY\<rparr>\<rparr>;
        s5 = s4\<lparr>head := (head s4)\<lparr>x := x (head s4) + dX\<rparr>\<rparr>
    in g s5) =
   g (s3\<lparr>head := (head s3)\<lparr>y := y (head s3) + deltaY (direction s3),
                              x := x (head s3) + deltaX (direction s3)\<rparr>\<rparr>)"
  by (simp add: Let_def deltaX_def deltaY_def)

lemma nat_int_pred: "nat (int n - 1) = n - 1"
  by arith

lemma move_eq:
  "move s = (if tail s = [] \<and> \<not> 0 < sint (growth s) then Inl SliceBoundsOutOfRange
             else Inr (moved s))"
  unfolding move_def wrap_stage delta_stage
  by (simp add: Let_def moved_def butlast_conv_take nat_int_pred)

lemma moved_simps:
  "nextPoint (moved s) = nextPoint s"
  "direction (moved s) = nextDirection s"
  "nextDirection (moved s) = nextDirection s"
  "growth (moved s) = (if 0 < sint (growth s) then growth s - 1 else growth s)"
  "tail (moved s) = head s # (if 0 < sint (growth s) then tail s else butlast (tail s))"
  "x (head (moved s)) = wrapAxis (x (head s) + deltaX (nextDirection s))"
  "y (head (moved s)) = wrapAxis (y (head s) + deltaY (nextDirection s))"
  by (simp_all add: moved_def)

lemma wrapAxis_range: "1 \<le> sint (wrapAxis v) \<and> sint (wrapAxis v) \<le> 10"
proof (cases "10 < sint v")
  case True
  then show ?thesis by (simp add: wrapAxis_def)
next
  case False
  then show ?thesis by (cases "sint v < 1") (simp_all add: wrapAxis_def)
qed

lemma wrapAxis_succ: "wrapAxis (v + 1) \<noteq> v"
proof (cases "10 < sint (v + 1)")
  case True
  then have "v \<noteq> 1" by auto
  with True show ?thesis by (simp add: wrapAxis_def)
next
  case False
  show ?thesis
  proof (cases "sint (v + 1) < 1")
    case True
    then have "v \<noteq> 10" by auto
    with True False show ?thesis by (simp add: wrapAxis_def)
  next
    case inside: False
    with False show ?thesis by (simp add: wrapAxis_def)
  qed
qed

lemma wrapAxis_pred: "wrapAxis (v - 1) \<noteq> v"
proof (cases "10 < sint (v - 1)")
  case True
  then have "v \<noteq> 1" by auto
  with True show ?thesis by (simp add: wrapAxis_def)
next
  case False
  show ?thesis
  proof (cases "sint (v - 1) < 1")
    case True
    then have "v \<noteq> 10" by auto
    with True False show ?thesis by (simp add: wrapAxis_def)
  next
    case inside: False
    with False show ?thesis by (simp add: wrapAxis_def)
  qed
qed

lemma moved_head_moves:
  "validDir (nextDirection s) \<Longrightarrow> head (moved s) \<noteq> head s"
proof -
  assume "validDir (nextDirection s)"
  then consider "nextDirection s = CHR ''u''" | "nextDirection s = CHR ''d''"
    | "nextDirection s = CHR ''l''" | "nextDirection s = CHR ''r''"
    by (auto simp: validDir_def)
  then show ?thesis
  proof cases
    case 1
    then have "y (head (moved s)) \<noteq> y (head s)"
      by (simp add: moved_simps deltaY_def wrapAxis_pred)
    then show ?thesis by auto
  next
    case 2
    then have "y (head (moved s)) \<noteq> y (head s)"
      by (simp add: moved_simps deltaY_def wrapAxis_succ)
    then show ?thesis by auto
  next
    case 3
    then have "x (head (moved s)) \<noteq> x (head s)"
      by (simp add: moved_simps deltaX_def wrapAxis_pred)
    then show ?thesis by auto
  next
    case 4
    then have "x (head (moved s)) \<noteq> x (head s)"
      by (simp add: moved_simps deltaX_def wrapAxis_succ)
    then show ?thesis by auto
  qed
qed

section \<open>Facts about generateNextPoint\<close>

lemma sint_small: "n < 9 \<Longrightarrow> sint (of_nat n + 1 :: int64) = int n + 1"
proof -
  assume n: "n < 9"
  have "(of_nat n + 1 :: int64) = of_nat (Suc n)" by simp
  then have "sint (of_nat n + 1 :: int64) = signed_take_bit 63 (int (Suc n))"
    by (simp only: signed_of_nat) simp
  also have "\<dots> = int (Suc n)"
    using n by (intro signed_take_bit_int_eq_self) auto
  finally show ?thesis by simp
qed

lemma Int63n_range:
  "1 \<le> sint (Int63n (size' - 1) r + 1) \<and> sint (Int63n (size' - 1) r + 1) \<le> 9"
proof -
  have "r 0 mod 9 < 9" by simp
  then show ?thesis
    unfolding Int63n_def size'_def by (simp add: sint_small)
qed

lemma rangeTail_miss:
  "nextPoint s \<notin> set ps \<Longrightarrow> rangeTail k ps s r = Some (s, r)"
  by (induction ps) auto

lemma retryDraw_frame:
  "head s' = head s \<Longrightarrow> tail s' = tail s \<Longrightarrow> retryDraw k s' r = retryDraw k s r"
  by (induction k arbitrary: r) (simp_all add: onSnake_def)

lemma retryDraw_free:
  "retryDraw k s r = Some (p, r') \<Longrightarrow> \<not> onSnake s p"
  by (induction k arbitrary: r) (auto split: if_splits)

lemma rangeTail_hit:
  "nextPoint s \<in> set ps \<Longrightarrow>
   \<exists>qs. set qs \<subseteq> set ps \<and>
     rangeTail k ps s r =
       (case generateNextPoint k s r of None \<Rightarrow> None
        | Some (s', r') \<Rightarrow> rangeTail k qs s' r')"
proof (induction ps)
  case Nil
  then show ?case by simp
next
  case (Cons p ps)
  show ?case
  proof (cases "p = nextPoint s")
    case True
    then show ?thesis by (intro exI [of _ ps]) auto
  next
    case False
    with Cons.prems have "nextPoint s \<in> set ps" by auto
    from Cons.IH [OF this] obtain qs where
      "set qs \<subseteq> set ps" and
      "rangeTail k ps s r =
        (case generateNextPoint k s r of None \<Rightarrow> None
         | Some (s', r') \<Rightarrow> rangeTail k qs s' r')"
      by blast
    with False show ?thesis by (intro exI [of _ qs]) auto
  qed
qed

lemma generateNextPoint_retryDraw:
  "generateNextPoint k s r = map_option (place s) (retryDraw k s r)"
proof (induction k arbitrary: s r)
  case 0
  show ?case by simp
next
  case (Suc k)
  define p where "p = drawPoint r"
  define s1 where "s1 = s\<lparr>nextPoint := p\<rparr>"
  define r1 where "r1 = consume (consume r)"
  have frame: "head s1 = head s" "tail s1 = tail s" "nextPoint s1 = p"
    by (simp_all add: s1_def)
  have inner: "generateNextPoint k s1 r1 = map_option (place s) (retryDraw k s r1)"
  proof -
    have "place s1 = place s" by (simp add: place_def s1_def fun_eq_iff)
    then show ?thesis by (simp add: Suc.IH retryDraw_frame [OF frame(1,2)])
  qed
  have settle: "rangeTail k qs (s\<lparr>nextPoint := q\<rparr>) r2 = Some (s\<lparr>nextPoint := q\<rparr>, r2)"
    if "retryDraw k s r1 = Some (q, r2)" and "set qs \<subseteq> set (tail s)" for q r2 qs
  proof -
    from that(1) have "\<not> onSnake s q" by (rule retryDraw_free)
    with that(2) have "nextPoint (s\<lparr>nextPoint := q\<rparr>) \<notin> set qs"
      by (auto simp: onSnake_def)
    then show ?thesis by (rule rangeTail_miss)
  qed
  have unfold: "generateNextPoint (Suc k) s r =
    (case (if p = head s then generateNextPoint k s1 r1 else Some (s1, r1)) of
       None \<Rightarrow> None | Some (s2, r2) \<Rightarrow> rangeTail k (tail s2) s2 r2)"
    by (simp add: Let_def p_def s1_def r1_def drawPoint_def)
  have spec: "retryDraw (Suc k) s r =
    (if onSnake s p then retryDraw k s r1 else Some (p, r1))"
    by (simp add: p_def r1_def)
  show ?case
  proof (cases "p = head s")
    case True
    then have on: "onSnake s p" by (simp add: onSnake_def)
    show ?thesis
    proof (cases "retryDraw k s r1")
      case None
      with True on show ?thesis
        by (simp add: unfold spec inner del: generateNextPoint.simps retryDraw.simps)
    next
      case (Some qr)
      obtain q r2 where qr: "qr = (q, r2)" by (cases qr)
      from settle [OF Some [unfolded qr] subset_refl] True on Some qr
      show ?thesis
        by (simp add: unfold spec inner place_def del: generateNextPoint.simps retryDraw.simps)
    qed
  next
    case False
    show ?thesis
    proof (cases "p \<in> set (tail s)")
      case inTail: True
      then have on: "onSnake s p" by (simp add: onSnake_def)
      from inTail have "nextPoint s1 \<in> set (tail s)" by (simp add: frame)
      from rangeTail_hit [OF this, of k r1] obtain qs where
        qs: "set qs \<subseteq> set (tail s)" and
        hit: "rangeTail k (tail s) s1 r1 =
          (case generateNextPoint k s1 r1 of None \<Rightarrow> None
           | Some (s', r') \<Rightarrow> rangeTail k qs s' r')"
        by blast
      show ?thesis
      proof (cases "retryDraw k s r1")
        case None
        with False on show ?thesis
          by (simp add: unfold spec hit inner frame del: generateNextPoint.simps retryDraw.simps)
      next
        case (Some qr)
        obtain q r2 where qr: "qr = (q, r2)" by (cases qr)
        from settle [OF Some [unfolded qr] qs] False on Some qr
        show ?thesis
          by (simp add: unfold spec hit inner place_def frame
              del: generateNextPoint.simps retryDraw.simps)
      qed
    next
      case free: False
      with False have off: "\<not> onSnake s p" by (simp add: onSnake_def)
      from free have "nextPoint s1 \<notin> set (tail s)" by (simp add: frame)
      then have "rangeTail k (tail s) s1 r1 = Some (s1, r1)" by (rule rangeTail_miss)
      with False off show ?thesis
        by (simp add: unfold spec frame place_def s1_def
            del: generateNextPoint.simps retryDraw.simps)
    qed
  qed
qed

section \<open>Facts about checkCollisions\<close>

lemma collisionIndex_ge: "collisionIndex h ps i = Some j \<Longrightarrow> i \<le> j"
  by (induction ps arbitrary: i) (auto split: if_splits dest: Suc_leD)

lemma collisionIndex_takeWhile:
  "(case collisionIndex h ps i of None \<Rightarrow> ps | Some j \<Rightarrow> take (j - i) ps) =
   takeWhile (\<lambda>p. p \<noteq> h) ps"
proof (induction ps arbitrary: i)
  case Nil
  show ?case by simp
next
  case (Cons p ps)
  show ?case
  proof (cases "p = h")
    case True
    then show ?thesis by simp
  next
    case False
    show ?thesis
    proof (cases "collisionIndex h ps (Suc i)")
      case None
      with False Cons.IH [of "Suc i"] show ?thesis by simp
    next
      case (Some j)
      from collisionIndex_ge [OF Some] have "j - i = Suc (j - Suc i)" by arith
      with False Some Cons.IH [of "Suc i"] show ?thesis by simp
    qed
  qed
qed

lemma checkCollisions_eq:
  "checkCollisions s = s\<lparr>tail := takeWhile (\<lambda>p. p \<noteq> head s) (tail s)\<rparr>"
proof -
  have "tail (checkCollisions s) =
    (case collisionIndex (head s) (tail s) 0 of None \<Rightarrow> tail s | Some j \<Rightarrow> take (j - 0) (tail s))"
    by (simp add: checkCollisions_def split: option.splits)
  then have "tail (checkCollisions s) = takeWhile (\<lambda>p. p \<noteq> head s) (tail s)"
    by (simp only: collisionIndex_takeWhile)
  moreover have "checkCollisions s = s\<lparr>tail := tail (checkCollisions s)\<rparr>"
    by (simp add: checkCollisions_def split: option.splits)
  ultimately show ?thesis by simp
qed

lemma collisionIndex_first:
  "i < length ps \<Longrightarrow> ps ! i = h \<Longrightarrow> \<forall>j<i. ps ! j \<noteq> h \<Longrightarrow>
   collisionIndex h ps n = Some (n + i)"
proof (induction ps arbitrary: i n)
  case Nil
  then show ?case by simp
next
  case (Cons p ps)
  show ?case
  proof (cases i)
    case 0
    with Cons.prems show ?thesis by simp
  next
    case (Suc m)
    with Cons.prems have "p \<noteq> h" by auto
    moreover from Suc Cons.prems have "m < length ps" "ps ! m = h" "\<forall>j<m. ps ! j \<noteq> h"
      by auto
    from Cons.IH [OF this, of "Suc n"] have "collisionIndex h ps (Suc n) = Some (Suc n + m)" .
    ultimately show ?thesis using Suc by simp
  qed
qed

section \<open>Facts about a tick\<close>

lemma retryDraw_growth:
  "retryDraw k (s\<lparr>growth := g\<rparr>) r = retryDraw k s r"
  by (rule retryDraw_frame) simp_all

lemma advance_eq:
  "advance k w =
    (if tail (fst w) = [] \<and> \<not> 0 < sint (growth (fst w)) then Inl SliceBoundsOutOfRange
     else if head (moved (fst w)) = nextPoint (fst w)
     then (case retryDraw k (moved (fst w)) (snd w) of
             None \<Rightarrow> Inl NoReturn
           | Some pr \<Rightarrow>
               Inr (checkCollisions
                     ((moved (fst w))\<lparr>growth := growth (moved (fst w)) + 1,
                                      nextPoint := fst pr\<rparr>), snd pr))
     else Inr (checkCollisions (moved (fst w)), snd w))"
  by (simp add: advance_def move_eq checkPoint_def generateNextPoint_retryDraw retryDraw_growth
      moved_simps place_def split: option.splits)

section \<open>What holds in every reachable state\<close>

lemma pollKeys_eq:
  "pollKeys win s =
    s\<lparr>nextDirection :=
       (if KeyDown win \<and> direction s \<noteq> CHR ''u'' then CHR ''d''
        else if KeyUp win \<and> direction s \<noteq> CHR ''d'' then CHR ''u''
        else if KeyRight win \<and> direction s \<noteq> CHR ''l'' then CHR ''r''
        else if KeyLeft win \<and> direction s \<noteq> CHR ''r'' then CHR ''l''
        else nextDirection s)\<rparr>"
  by (simp add: pollKeys_def Let_def)

lemma sane_pollKeys: "sane s \<Longrightarrow> sane (pollKeys win s)"
  by (simp add: pollKeys_eq sane_def validDir_def onSnake_def)

lemma generateNextPoint_post:
  assumes "generateNextPoint k s r = Some (s', r')"
  shows "s' = s\<lparr>nextPoint := nextPoint s'\<rparr> \<and> \<not> onSnake s (nextPoint s')"
proof -
  from assms obtain pr where pr: "retryDraw k s r = Some pr" and s': "(s', r') = place s pr"
    by (auto simp: generateNextPoint_retryDraw)
  obtain p r2 where "pr = (p, r2)" by (cases pr)
  with pr s' retryDraw_free [of k s r p r2] show ?thesis by (simp add: place_def)
qed

lemma sane_start:
  assumes "generateNextPoint k snake r = Some w"
  shows "sane (fst w)"
proof -
  obtain s' r' where w: "w = (s', r')" by (cases w)
  from generateNextPoint_post [OF assms [unfolded w]]
  have eq: "s' = snake\<lparr>nextPoint := nextPoint s'\<rparr>" and off: "\<not> onSnake snake (nextPoint s')"
    by simp_all
  have "sane (snake\<lparr>nextPoint := p\<rparr>)" if "\<not> onSnake snake p" for p
    using that by (simp add: sane_def snake_def validDir_def onSnake_def)
  from this [OF off] eq w show ?thesis by simp
qed

lemma sane_advance:
  assumes "sane (fst w)" and "advance k w = Inr w'"
  shows "sane (fst w')"
proof -
  define s where "s = fst w"
  define m where "m = moved s"
  from assms(1) have ne: "tail s \<noteq> []" and vd: "validDir (nextDirection s)"
    and g: "growth s = 0 \<or> growth s = 1" and food: "\<not> onSnake s (nextPoint s)"
    by (simp_all add: sane_def s_def)
  have mh: "head m \<noteq> head s" unfolding m_def by (rule moved_head_moves [OF vd])
  have mt: "tail m = head s # (if 0 < sint (growth s) then tail s else butlast (tail s))"
    by (simp add: m_def moved_simps)
  have mg: "growth m = 0" using g by (auto simp: m_def moved_simps)
  have md: "direction m = nextDirection s" "nextDirection m = nextDirection s"
    "nextPoint m = nextPoint s" by (simp_all add: m_def moved_simps)
  have sub: "set (tail m) \<subseteq> insert (head s) (set (tail s))"
    using mt by (auto dest: in_set_butlastD)
  have cut: "takeWhile (\<lambda>p. p \<noteq> head m) (tail m) \<noteq> []"
    using mh by (simp add: mt)
  have cutsub: "set (takeWhile (\<lambda>p. p \<noteq> head m) (tail m)) \<subseteq> set (tail m)"
    by (auto dest: set_takeWhileD)
  show ?thesis
  proof (cases "head m = nextPoint s")
    case False
    with assms(2) ne have w': "fst w' = checkCollisions m"
      by (auto simp: advance_eq s_def m_def)
    from food sub False have "\<not> onSnake m (nextPoint m)"
      by (auto simp: onSnake_def md)
    with cutsub have "\<not> onSnake (checkCollisions m) (nextPoint (checkCollisions m))"
      by (auto simp: checkCollisions_eq onSnake_def)
    with cut vd mg show ?thesis
      by (simp add: w' sane_def checkCollisions_eq md)
  next
    case True
    with assms(2) ne obtain pr where pr: "retryDraw k m (snd w) = Some pr"
      and w': "fst w' = checkCollisions (m\<lparr>growth := growth m + 1, nextPoint := fst pr\<rparr>)"
      by (auto simp: advance_eq s_def m_def split: option.splits)
    obtain p r2 where "pr = (p, r2)" by (cases pr)
    with pr have "\<not> onSnake m p" and [simp]: "fst pr = p" by (auto dest: retryDraw_free)
    with cutsub have "\<not> onSnake (checkCollisions (m\<lparr>growth := growth m + 1, nextPoint := p\<rparr>)) p"
      by (auto simp: checkCollisions_eq onSnake_def)
    with cut vd mg show ?thesis
      by (simp add: w' sane_def checkCollisions_eq md)
  qed
qed

lemma reachable_sane: "reachable w \<Longrightarrow> sane (fst w)"
proof (induction rule: reachable.induct)
  case (start k r w)
  then show ?case by (rule sane_start)
next
  case (poll s r win)
  then show ?case by (simp add: sane_pollKeys)
next
  case (tick w k w')
  then show ?case by (auto intro: sane_advance)
qed

lemma run_reachable: "reachable w \<Longrightarrow> run k es w = Inr w' \<Longrightarrow> reachable w'"
proof (induction k es w rule: run.induct)
  case (1 k w)
  then show ?case by simp
next
  case (2 k win es w)
  obtain a b where w: "w = (a, b)" by (cases w)
  from "2.prems"(1) have "reachable (a, b)" by (simp add: w)
  then have "reachable (pollKeys win a, b)" by (rule reachable.poll)
  then have "reachable (pollKeys win (fst w), snd w)" by (simp add: w)
  with 2 show ?case by simp
next
  case (3 k es w)
  then show ?case by (auto split: sum.splits intro: reachable.tick)
qed

section \<open>The outcome of a tick\<close>

lemma advance_panic:
  "tail (fst w) = [] \<Longrightarrow> \<not> 0 < sint (growth (fst w)) \<Longrightarrow>
   advance k w = Inl SliceBoundsOutOfRange"
  by (simp add: advance_eq)

lemma advance_plain:
  "tail (fst w) \<noteq> [] \<or> 0 < sint (growth (fst w)) \<Longrightarrow>
   head (moved (fst w)) \<noteq> nextPoint (fst w) \<Longrightarrow>
   advance k w = Inr (checkCollisions (moved (fst w)), snd w)"
  by (subst advance_eq) auto

lemma advance_food:
  "tail (fst w) \<noteq> [] \<or> 0 < sint (growth (fst w)) \<Longrightarrow>
   head (moved (fst w)) = nextPoint (fst w) \<Longrightarrow>
   advance k w =
     (case retryDraw k (moved (fst w)) (snd w) of
        None \<Rightarrow> Inl NoReturn
      | Some pr \<Rightarrow>
          Inr (checkCollisions
                ((moved (fst w))\<lparr>growth := growth (moved (fst w)) + 1,
                                 nextPoint := fst pr\<rparr>), snd pr))"
  by (subst advance_eq) auto

lemma advance_Inr_shape:
  assumes "advance k w = Inr w'"
  shows "(tail (fst w) \<noteq> [] \<or> 0 < sint (growth (fst w))) \<and>
         (\<exists>g p. fst w' = checkCollisions ((moved (fst w))\<lparr>growth := g, nextPoint := p\<rparr>))"
proof -
  define m where "m = moved (fst w)"
  have ok: "tail (fst w) \<noteq> [] \<or> 0 < sint (growth (fst w))"
  proof (rule ccontr)
    assume "\<not> (tail (fst w) \<noteq> [] \<or> 0 < sint (growth (fst w)))"
    then have "advance k w = Inl SliceBoundsOutOfRange" by (intro advance_panic) auto
    with assms show False by simp
  qed
  show ?thesis
  proof (cases "head m = nextPoint (fst w)")
    case False
    with ok have "advance k w = Inr (checkCollisions m, snd w)"
      unfolding m_def by (rule advance_plain)
    with assms have "fst w' = checkCollisions m" by auto
    then have "fst w' = checkCollisions (m\<lparr>growth := growth m, nextPoint := nextPoint m\<rparr>)"
      by simp
    with ok show ?thesis unfolding m_def by blast
  next
    case True
    with ok have eq: "advance k w =
      (case retryDraw k m (snd w) of None \<Rightarrow> Inl NoReturn
       | Some pr \<Rightarrow> Inr (checkCollisions (m\<lparr>growth := growth m + 1, nextPoint := fst pr\<rparr>), snd pr))"
      unfolding m_def by (rule advance_food)
    show ?thesis
    proof (cases "retryDraw k m (snd w)")
      case None
      with eq assms show ?thesis by simp
    next
      case (Some pr)
      with eq assms have "fst w' = checkCollisions (m\<lparr>growth := growth m + 1, nextPoint := fst pr\<rparr>)"
        by auto
      with ok show ?thesis unfolding m_def by blast
    qed
  qed
qed

lemma advance_Inr:
  assumes "advance k w = Inr w'"
  shows "head (fst w') = head (moved (fst w))"
    and "tail (fst w') =
          takeWhile (\<lambda>p. p \<noteq> head (moved (fst w))) (tail (moved (fst w)))"
    and "direction (fst w') = nextDirection (fst w)"
    and "nextDirection (fst w') = nextDirection (fst w)"
    and "tail (fst w) \<noteq> [] \<or> 0 < sint (growth (fst w))"
proof -
  from advance_Inr_shape [OF assms] obtain g p where
    w': "fst w' = checkCollisions ((moved (fst w))\<lparr>growth := g, nextPoint := p\<rparr>)"
    and ok: "tail (fst w) \<noteq> [] \<or> 0 < sint (growth (fst w))"
    by blast
  show "head (fst w') = head (moved (fst w))"
    by (simp add: w' checkCollisions_eq)
  show "tail (fst w') =
          takeWhile (\<lambda>p. p \<noteq> head (moved (fst w))) (tail (moved (fst w)))"
    by (simp add: w' checkCollisions_eq)
  show "direction (fst w') = nextDirection (fst w)"
    by (simp add: w' checkCollisions_eq moved_simps)
  show "nextDirection (fst w') = nextDirection (fst w)"
    by (simp add: w' checkCollisions_eq moved_simps)
  show "tail (fst w) \<noteq> [] \<or> 0 < sint (growth (fst w))" by (rule ok)
qed

lemma drawPoint_range:
  "1 \<le> sint (x (drawPoint r)) \<and> sint (x (drawPoint r)) \<le> 9 \<and>
   1 \<le> sint (y (drawPoint r)) \<and> sint (y (drawPoint r)) \<le> 9"
  using Int63n_range [of r] Int63n_range [of "consume r"] by (simp add: drawPoint_def)

lemma retryDraw_drawn:
  "retryDraw k s r = Some (p, r') \<Longrightarrow> \<exists>r0. p = drawPoint r0"
  by (induction k arbitrary: r) (auto split: if_splits)

lemma collisionIndex_length:
  "collisionIndex h ps i = Some j \<Longrightarrow> j - i < length ps"
proof (induction ps arbitrary: i)
  case Nil
  then show ?case by simp
next
  case (Cons p ps)
  show ?case
  proof (cases "p = h")
    case True
    with Cons.prems show ?thesis by simp
  next
    case False
    with Cons.prems have rest: "collisionIndex h ps (Suc i) = Some j" by simp
    from Cons.IH [OF rest] collisionIndex_ge [OF rest] show ?thesis by simp
  qed
qed

lemma moved_tail_length:
  "tail s \<noteq> [] \<or> 0 < sint (growth s) \<Longrightarrow>
   length (tail (moved s)) = length (tail s) + (if 0 < sint (growth s) then 1 else 0)"
  by (auto simp: moved_simps)


lemma takeWhile_butlast_length:
  assumes "xs \<noteq> []"
  shows "length (takeWhile P xs) =
         length (takeWhile P (butlast xs)) + (if \<forall>a\<in>set xs. P a then 1 else 0)"
proof -
  from assms obtain ys a where xs: "xs = ys @ [a]" by (cases xs rule: rev_cases) auto
  show ?thesis
  proof (cases "\<forall>b\<in>set ys. P b")
    case True
    then have app: "takeWhile P (ys @ [a]) = ys @ takeWhile P [a]"
      by (intro takeWhile_append2) auto
    from True have whole: "takeWhile P ys = ys" by (simp add: takeWhile_eq_all_conv)
    from True show ?thesis unfolding xs app by (simp add: whole)
  next
    case False
    then obtain b where b: "b \<in> set ys" "\<not> P b" by blast
    then have "takeWhile P (ys @ [a]) = takeWhile P ys" by (rule takeWhile_append1)
    with b show ?thesis by (auto simp: xs)
  qed
qed

lemma moved_growth_head: "head (moved (s\<lparr>growth := g\<rparr>)) = head (moved s)"
  by (simp add: moved_def)

section \<open>A game that fills the food region\<close>













section \<open>The claims\<close>

text \<open>
  C1. Every food cell \<open>generateNextPoint\<close> produces has both coordinates in
  \<open>[1, N - 1] = [1, 9]\<close>: \<open>rand.Int63n(size - 1)\<close> is below \<open>9\<close>. No cell with
  \<open>x = N\<close> or \<open>y = N\<close> is ever the food.
\<close>

theorem food_range:
  assumes "generateNextPoint k s r = Some (s', r')"
  shows "1 \<le> sint (x (nextPoint s')) \<and> sint (x (nextPoint s')) \<le> int size' - 1 \<and>
         1 \<le> sint (y (nextPoint s')) \<and> sint (y (nextPoint s')) \<le> int size' - 1"
proof -
  from assms obtain pr where pr: "retryDraw k s r = Some pr" and s': "(s', r') = place s pr"
    by (auto simp: generateNextPoint_retryDraw)
  obtain p r2 where "pr = (p, r2)" by (cases pr)
  with pr s' have "retryDraw k s r = Some (p, r2)" and "nextPoint s' = p"
    by (simp_all add: place_def)
  with retryDraw_drawn [of k s r p r2] obtain r0 where "nextPoint s' = drawPoint r0" by auto
  with drawPoint_range [of r0] show ?thesis by (simp add: size'_def)
qed

theorem food_range_witness:
  "generateNextPoint 1 snake (\<lambda>i. 8) = Some (snake\<lparr>nextPoint := \<lparr>x = 9, y = 9\<rparr>\<rparr>, \<lambda>i. 8) \<and>
   sint (9 :: int64) \<le> int size' - 1"
proof -
  have placed: "generateNextPoint 1 snake (\<lambda>i. 8) =
      Some (snake\<lparr>nextPoint := \<lparr>x = 9, y = 9\<rparr>\<rparr>, \<lambda>i. 8)"
    by (simp add: snake_def Int63n_def consume_def size'_def)
  from food_range [OF placed] placed show ?thesis by simp
qed

text \<open>
  C2. One tick never makes the tail more than one cell longer. The rebuild in
  \<open>move\<close> adds one cell when growth is pending and keeps the length otherwise, and
  that is the whole change when the moved head is on no tail cell; when it is, the
  tail is cut to the index of the collision, which may drop any number of cells.
\<close>

theorem tail_length_change:
  assumes "advance k w = Inr w'"
  shows "length (tail (fst w')) \<le> length (tail (fst w)) + 1 \<and>
         (head (fst w') \<notin> set (tail (moved (fst w))) \<longrightarrow>
            length (tail (fst w')) =
              length (tail (fst w)) + (if 0 < sint (growth (fst w)) then 1 else 0)) \<and>
         (\<forall>i. collisionIndex (head (fst w')) (tail (moved (fst w))) 0 = Some i \<longrightarrow>
            tail (fst w') = take i (tail (moved (fst w))) \<and> length (tail (fst w')) = i)"
proof -
  define m where "m = moved (fst w)"
  note hd = advance_Inr(1) [OF assms, folded m_def]
  note tl = advance_Inr(2) [OF assms, folded m_def]
  from advance_Inr(5) [OF assms]
  have len: "length (tail m) =
      length (tail (fst w)) + (if 0 < sint (growth (fst w)) then 1 else 0)"
    unfolding m_def by (rule moved_tail_length)
  have "length (tail (fst w')) \<le> length (tail m)"
    unfolding tl by (rule length_takeWhile_le)
  with len have bound: "length (tail (fst w')) \<le> length (tail (fst w)) + 1"
    by (simp split: if_splits)
  have free: "length (tail (fst w')) =
      length (tail (fst w)) + (if 0 < sint (growth (fst w)) then 1 else 0)"
    if "head (fst w') \<notin> set (tail m)"
  proof -
    from that hd have "takeWhile (\<lambda>p. p \<noteq> head m) (tail m) = tail m"
      by (auto simp: takeWhile_eq_all_conv)
    with tl len show ?thesis by simp
  qed
  have cut: "tail (fst w') = take i (tail m) \<and> length (tail (fst w')) = i"
    if "collisionIndex (head (fst w')) (tail m) 0 = Some i" for i
  proof -
    from that hd have idx: "collisionIndex (head m) (tail m) 0 = Some i" by simp
    with collisionIndex_takeWhile [where h = "head m" and ps = "tail m" and i = 0]
    have "takeWhile (\<lambda>p. p \<noteq> head m) (tail m) = take i (tail m)" by simp
    moreover from collisionIndex_length [OF idx] have "i < length (tail m)" by simp
    ultimately show ?thesis using tl by simp
  qed
  from bound free cut show ?thesis unfolding m_def by blast
qed

theorem tail_length_change_witness:
  "advance (Suc 0) (snake\<lparr>nextPoint := \<lparr>x = 1, y = 1\<rparr>\<rparr>, \<lambda>i. 0) =
     Inr (snake\<lparr>nextPoint := \<lparr>x = 1, y = 1\<rparr>, head := \<lparr>x = 3, y = 2\<rparr>,
            tail := [\<lparr>x = 3, y = 3\<rparr>, \<lparr>x = 3, y = 4\<rparr>, \<lparr>x = 3, y = 5\<rparr>,
                     \<lparr>x = 3, y = 6\<rparr>, \<lparr>x = 3, y = 7\<rparr>]\<rparr>, \<lambda>i. 0) \<and>
   \<lparr>x = 3, y = 2\<rparr> \<notin> set (tail (moved (snake\<lparr>nextPoint := \<lparr>x = 1, y = 1\<rparr>\<rparr>))) \<and>
   length [\<lparr>x = 3, y = 3\<rparr>, \<lparr>x = 3, y = 4\<rparr>, \<lparr>x = 3, y = 5\<rparr>, \<lparr>x = 3, y = 6\<rparr>,
           \<lparr>x = 3, y = (7::int64)\<rparr>] = length (tail snake)"
proof -
  have adv: "advance (Suc 0) (snake\<lparr>nextPoint := \<lparr>x = 1, y = 1\<rparr>\<rparr>, \<lambda>i. 0) =
     Inr (snake\<lparr>nextPoint := \<lparr>x = 1, y = 1\<rparr>, head := \<lparr>x = 3, y = 2\<rparr>,
            tail := [\<lparr>x = 3, y = 3\<rparr>, \<lparr>x = 3, y = 4\<rparr>, \<lparr>x = 3, y = 5\<rparr>,
                     \<lparr>x = 3, y = 6\<rparr>, \<lparr>x = 3, y = 7\<rparr>]\<rparr>, \<lambda>i. 0)"
    by (simp add: exec)
  have off: "\<lparr>x = 3, y = 2\<rparr> \<notin> set (tail (moved (snake\<lparr>nextPoint := \<lparr>x = 1, y = 1\<rparr>\<rparr>)))"
    by (simp add: moved_def snake_def)
  from tail_length_change [OF adv] adv off show ?thesis by (simp add: snake_def)
qed

theorem tail_length_change_counterexample:
  "run (Suc 0) [Poll (press Left), Tick, Poll (press Down), Tick, Poll (press Right)]
     (snake\<lparr>nextPoint := \<lparr>x = 1, y = 1\<rparr>\<rparr>, \<lambda>i. 0) =
     Inr (\<lparr>nextPoint = \<lparr>x = 1, y = 1\<rparr>, growth = 0, direction = CHR ''d'',
            nextDirection = CHR ''r'', head = \<lparr>x = 2, y = 4\<rparr>,
            tail = [\<lparr>x = 2, y = 3\<rparr>, \<lparr>x = 3, y = 3\<rparr>, \<lparr>x = 3, y = 4\<rparr>,
                    \<lparr>x = 3, y = 5\<rparr>, \<lparr>x = 3, y = 6\<rparr>]\<rparr>, \<lambda>i. 0) \<and>
   reachable (\<lparr>nextPoint = \<lparr>x = 1, y = 1\<rparr>, growth = 0, direction = CHR ''d'',
                nextDirection = CHR ''r'', head = \<lparr>x = 2, y = 4\<rparr>,
                tail = [\<lparr>x = 2, y = 3\<rparr>, \<lparr>x = 3, y = 3\<rparr>, \<lparr>x = 3, y = 4\<rparr>,
                        \<lparr>x = 3, y = 5\<rparr>, \<lparr>x = 3, y = 6\<rparr>]\<rparr>, \<lambda>i. 0) \<and>
   advance (Suc 0)
     (\<lparr>nextPoint = \<lparr>x = 1, y = 1\<rparr>, growth = 0, direction = CHR ''d'',
        nextDirection = CHR ''r'', head = \<lparr>x = 2, y = 4\<rparr>,
        tail = [\<lparr>x = 2, y = 3\<rparr>, \<lparr>x = 3, y = 3\<rparr>, \<lparr>x = 3, y = 4\<rparr>,
                \<lparr>x = 3, y = 5\<rparr>, \<lparr>x = 3, y = 6\<rparr>]\<rparr>, \<lambda>i. 0) =
     Inr (\<lparr>nextPoint = \<lparr>x = 1, y = 1\<rparr>, growth = 0, direction = CHR ''r'',
            nextDirection = CHR ''r'', head = \<lparr>x = 3, y = 4\<rparr>,
            tail = [\<lparr>x = 2, y = 4\<rparr>, \<lparr>x = 2, y = 3\<rparr>, \<lparr>x = 3, y = 3\<rparr>]\<rparr>, \<lambda>i. 0) \<and>
   length [\<lparr>x = 2, y = 3\<rparr>, \<lparr>x = 3, y = 3\<rparr>, \<lparr>x = 3, y = 4\<rparr>, \<lparr>x = 3, y = 5\<rparr>,
           \<lparr>x = 3, y = (6::int64)\<rparr>] = 5 \<and>
   length [\<lparr>x = 2, y = 4\<rparr>, \<lparr>x = 2, y = 3\<rparr>, \<lparr>x = 3, y = (3::int64)\<rparr>] = 3"
proof -
  have init: "generateNextPoint (Suc 0) snake (\<lambda>i. 0) =
     Some (snake\<lparr>nextPoint := \<lparr>x = 1, y = 1\<rparr>\<rparr>, \<lambda>i. 0)"
    by (simp add: exec)
  have steps: "run (Suc 0) [Poll (press Left), Tick, Poll (press Down), Tick, Poll (press Right)]
     (snake\<lparr>nextPoint := \<lparr>x = 1, y = 1\<rparr>\<rparr>, \<lambda>i. 0) =
     Inr (\<lparr>nextPoint = \<lparr>x = 1, y = 1\<rparr>, growth = 0, direction = CHR ''d'',
            nextDirection = CHR ''r'', head = \<lparr>x = 2, y = 4\<rparr>,
            tail = [\<lparr>x = 2, y = 3\<rparr>, \<lparr>x = 3, y = 3\<rparr>, \<lparr>x = 3, y = 4\<rparr>,
                    \<lparr>x = 3, y = 5\<rparr>, \<lparr>x = 3, y = 6\<rparr>]\<rparr>, \<lambda>i. 0)"
    by (simp add: exec)
  from run_reachable [OF reachable.start [OF init] steps] steps
  show ?thesis by (simp add: exec)
qed




text \<open>
  C4. After a tick the head lies in the grid, \<open>1 \<le> x \<le> N\<close> and \<open>1 \<le> y \<le> N\<close> with
  \<open>N = 10\<close>: each coordinate is the old one plus the delta of the committed
  direction, wrapped on its own axis (above \<open>N\<close> it becomes \<open>1\<close>, below \<open>1\<close> it
  becomes \<open>N\<close>). It holds from every state, reachable or not.
\<close>

theorem head_stays_in_grid:
  assumes "advance k w = Inr w'"
  shows "1 \<le> sint (x (head (fst w'))) \<and> sint (x (head (fst w'))) \<le> int size' \<and>
         1 \<le> sint (y (head (fst w'))) \<and> sint (y (head (fst w'))) \<le> int size' \<and>
         x (head (fst w')) = wrapAxis (x (head (fst w)) + deltaX (direction (fst w'))) \<and>
         y (head (fst w')) = wrapAxis (y (head (fst w)) + deltaY (direction (fst w')))"
  using advance_Inr(1,3) [OF assms]
    wrapAxis_range [of "x (head (fst w)) + deltaX (nextDirection (fst w))"]
    wrapAxis_range [of "y (head (fst w)) + deltaY (nextDirection (fst w))"]
  by (simp add: moved_simps size'_def)

theorem head_stays_in_grid_witness:
  "advance 1 (snake\<lparr>nextPoint := \<lparr>x = 1, y = 1\<rparr>, head := \<lparr>x = 3, y = 1\<rparr>,
                   tail := [\<lparr>x = 3, y = 2\<rparr>, \<lparr>x = 3, y = 3\<rparr>, \<lparr>x = 3, y = 4\<rparr>,
                            \<lparr>x = 3, y = 5\<rparr>, \<lparr>x = 3, y = 6\<rparr>]\<rparr>, \<lambda>i. 0) =
     Inr (snake\<lparr>nextPoint := \<lparr>x = 1, y = 1\<rparr>, head := \<lparr>x = 3, y = 10\<rparr>,
                 tail := [\<lparr>x = 3, y = 1\<rparr>, \<lparr>x = 3, y = 2\<rparr>, \<lparr>x = 3, y = 3\<rparr>,
                          \<lparr>x = 3, y = 4\<rparr>, \<lparr>x = 3, y = 5\<rparr>]\<rparr>, \<lambda>i. 0) \<and>
   wrapAxis (1 + deltaY (CHR ''u'')) = 10 \<and> wrapAxis (3 + deltaX (CHR ''u'')) = 3"
proof -
  have step: "advance 1 (snake\<lparr>nextPoint := \<lparr>x = 1, y = 1\<rparr>, head := \<lparr>x = 3, y = 1\<rparr>,
                   tail := [\<lparr>x = 3, y = 2\<rparr>, \<lparr>x = 3, y = 3\<rparr>, \<lparr>x = 3, y = 4\<rparr>,
                            \<lparr>x = 3, y = 5\<rparr>, \<lparr>x = 3, y = 6\<rparr>]\<rparr>, \<lambda>i. 0) =
     Inr (snake\<lparr>nextPoint := \<lparr>x = 1, y = 1\<rparr>, head := \<lparr>x = 3, y = 10\<rparr>,
                 tail := [\<lparr>x = 3, y = 1\<rparr>, \<lparr>x = 3, y = 2\<rparr>, \<lparr>x = 3, y = 3\<rparr>,
                          \<lparr>x = 3, y = 4\<rparr>, \<lparr>x = 3, y = 5\<rparr>]\<rparr>, \<lambda>i. 0)"
    by (simp add: advance_def move_def checkPoint_def checkCollisions_def snake_def Let_def)
  from head_stays_in_grid [OF step] step show ?thesis
    by (simp add: snake_def)
qed

text \<open>
  C5. When, after the head has moved, the tail holds a cell equal to the new head and
  \<open>i\<close> is the index (from \<open>0\<close>, at the end next to the head) of the first such
  cell, the tick cuts the tail to its first \<open>i\<close> cells: the loop of
  \<open>checkCollisions\<close> breaks at \<open>i\<close>, the cells before it are kept, the cell at
  \<open>i\<close> and all behind it are dropped.
\<close>

theorem collision_truncates:
  assumes "move (fst w) = Inr s1" and "advance k w = Inr w'"
    and "i < length (tail s1)" and "tail s1 ! i = head s1"
    and "\<forall>j<i. tail s1 ! j \<noteq> head s1"
  shows "collisionIndex (head s1) (tail s1) 0 = Some i \<and>
         head (fst w') = head s1 \<and> tail (fst w') = take i (tail s1)"
proof -
  from assms(1) have s1: "s1 = moved (fst w)"
    by (simp add: move_eq split: if_splits)
  from collisionIndex_first [OF assms(3,4,5), where n = 0]
  have idx: "collisionIndex (head s1) (tail s1) 0 = Some i" by simp
  with collisionIndex_takeWhile [where h = "head s1" and ps = "tail s1" and i = 0]
  have "takeWhile (\<lambda>p. p \<noteq> head s1) (tail s1) = take i (tail s1)" by simp
  with advance_Inr(1,2) [OF assms(2)] idx show ?thesis by (simp add: s1)
qed

theorem collision_truncates_witness:
  "move \<lparr>nextPoint = \<lparr>x = 1, y = 1\<rparr>, growth = 0, direction = CHR ''d'',
          nextDirection = CHR ''r'', head = \<lparr>x = 2, y = 4\<rparr>,
          tail = [\<lparr>x = 2, y = 3\<rparr>, \<lparr>x = 3, y = 3\<rparr>, \<lparr>x = 3, y = 4\<rparr>,
                  \<lparr>x = 3, y = 5\<rparr>, \<lparr>x = 3, y = 6\<rparr>]\<rparr> =
     Inr \<lparr>nextPoint = \<lparr>x = 1, y = 1\<rparr>, growth = 0, direction = CHR ''r'',
           nextDirection = CHR ''r'', head = \<lparr>x = 3, y = 4\<rparr>,
           tail = [\<lparr>x = 2, y = 4\<rparr>, \<lparr>x = 2, y = 3\<rparr>, \<lparr>x = 3, y = 3\<rparr>,
                   \<lparr>x = 3, y = 4\<rparr>, \<lparr>x = 3, y = 5\<rparr>]\<rparr> \<and>
   advance (Suc 0)
     (\<lparr>nextPoint = \<lparr>x = 1, y = 1\<rparr>, growth = 0, direction = CHR ''d'',
        nextDirection = CHR ''r'', head = \<lparr>x = 2, y = 4\<rparr>,
        tail = [\<lparr>x = 2, y = 3\<rparr>, \<lparr>x = 3, y = 3\<rparr>, \<lparr>x = 3, y = 4\<rparr>,
                \<lparr>x = 3, y = 5\<rparr>, \<lparr>x = 3, y = 6\<rparr>]\<rparr>, \<lambda>i. 0) =
     Inr (\<lparr>nextPoint = \<lparr>x = 1, y = 1\<rparr>, growth = 0, direction = CHR ''r'',
            nextDirection = CHR ''r'', head = \<lparr>x = 3, y = 4\<rparr>,
            tail = [\<lparr>x = 2, y = 4\<rparr>, \<lparr>x = 2, y = 3\<rparr>, \<lparr>x = 3, y = 3\<rparr>]\<rparr>, \<lambda>i. 0) \<and>
   collisionIndex \<lparr>x = 3, y = 4\<rparr>
     [\<lparr>x = 2, y = 4\<rparr>, \<lparr>x = 2, y = 3\<rparr>, \<lparr>x = 3, y = 3\<rparr>, \<lparr>x = 3, y = 4\<rparr>,
      \<lparr>x = 3, y = 5\<rparr>] 0 = Some 3"
proof -
  define s :: Snake where "s = \<lparr>nextPoint = \<lparr>x = 1, y = 1\<rparr>, growth = 0, direction = CHR ''d'',
          nextDirection = CHR ''r'', head = \<lparr>x = 2, y = 4\<rparr>,
          tail = [\<lparr>x = 2, y = 3\<rparr>, \<lparr>x = 3, y = 3\<rparr>, \<lparr>x = 3, y = 4\<rparr>,
                  \<lparr>x = 3, y = 5\<rparr>, \<lparr>x = 3, y = 6\<rparr>]\<rparr>"
  define s1 :: Snake where "s1 = \<lparr>nextPoint = \<lparr>x = 1, y = 1\<rparr>, growth = 0, direction = CHR ''r'',
           nextDirection = CHR ''r'', head = \<lparr>x = 3, y = 4\<rparr>,
           tail = [\<lparr>x = 2, y = 4\<rparr>, \<lparr>x = 2, y = 3\<rparr>, \<lparr>x = 3, y = 3\<rparr>,
                   \<lparr>x = 3, y = 4\<rparr>, \<lparr>x = 3, y = 5\<rparr>]\<rparr>"
  define s' :: Snake where "s' = s1\<lparr>tail := [\<lparr>x = 2, y = 4\<rparr>, \<lparr>x = 2, y = 3\<rparr>, \<lparr>x = 3, y = 3\<rparr>]\<rparr>"
  have mv: "move (fst (s, \<lambda>i::nat. 0::nat)) = Inr s1"
    by (simp add: s_def s1_def exec)
  have adv: "advance (Suc 0) (s, \<lambda>i. 0) = Inr (s', \<lambda>i. 0)"
    by (simp add: s_def s1_def s'_def exec)
  have len: "3 < length (tail s1)" and hit: "tail s1 ! 3 = head s1"
    by (simp_all add: s1_def)
  have first: "\<forall>j<3. tail s1 ! j \<noteq> head s1"
    by (simp add: s1_def less_Suc_eq numeral_3_eq_3)
  from collision_truncates [OF mv adv len hit first] mv adv
  show ?thesis by (simp add: s_def s1_def s'_def)
qed

text \<open>
  C6. In a reachable state whose tick moves the head onto the food: no cell is cut in
  that tick, one growth is pending at its end, and the tail length at its end is the
  length before the tick when no growth was pending before it, one more when the
  growth of the food eaten one tick earlier was. In the next tick the rebuild of
  \<open>move\<close> keeps every cell: at its end the tail is one cell longer than it is from
  the same state with no growth pending, unless the moved head is on a tail cell, in
  which case the cut makes both the same length.
\<close>

theorem growth_is_delayed:
  assumes "reachable w" and "advance k w = Inr w1"
    and "head (moved (fst w)) = nextPoint (fst w)"
    and "advance k2 (pollKeys win (fst w1), snd w1) = Inr w2"
    and "advance k3 ((pollKeys win (fst w1))\<lparr>growth := 0\<rparr>, snd w1) = Inr b2"
  shows "growth (fst w1) = 1 \<and>
         tail (fst w1) = tail (moved (fst w)) \<and>
         length (tail (fst w1)) =
           length (tail (fst w)) + (if growth (fst w) = 1 then 1 else 0) \<and>
         length (tail (moved (pollKeys win (fst w1)))) = length (tail (fst w1)) + 1 \<and>
         length (tail (fst w2)) =
           length (tail (fst b2)) + (if head (fst w2) \<in> set (tail (fst w1)) then 0 else 1)"
proof -
  define s where "s = fst w"
  define m where "m = moved s"
  from reachable_sane [OF assms(1)] have ne: "tail s \<noteq> []"
    and g: "growth s = 0 \<or> growth s = 1" and food: "\<not> onSnake s (nextPoint s)"
    by (simp_all add: sane_def s_def)
  have mg: "growth m = 0" using g by (auto simp: m_def moved_simps)
  have mt: "tail m = head s # (if 0 < sint (growth s) then tail s else butlast (tail s))"
    by (simp add: m_def moved_simps)
  have eat: "head m = nextPoint s" using assms(3) by (simp add: m_def s_def)
  \<comment> \<open>the tick that eats\<close>
  from ne have ok: "tail (fst w) \<noteq> [] \<or> 0 < sint (growth (fst w))" by (simp add: s_def)
  from advance_food [OF ok assms(3), of k] assms(2) obtain pr where
    w1: "fst w1 = checkCollisions (m\<lparr>growth := growth m + 1, nextPoint := fst pr\<rparr>)"
    by (auto simp: m_def s_def split: option.splits)
  from w1 mg have g1: "growth (fst w1) = 1" by (simp add: checkCollisions_eq)
  from food have "nextPoint s \<notin> set (tail m)"
    by (auto simp: mt onSnake_def dest: in_set_butlastD)
  with eat have "takeWhile (\<lambda>p. p \<noteq> head m) (tail m) = tail m"
    by (auto simp: takeWhile_eq_all_conv)
  with w1 have t1: "tail (fst w1) = tail m" by (simp add: checkCollisions_eq)
  from g ne have len1: "length (tail m) = length (tail s) + (if growth s = 1 then 1 else 0)"
    by (auto simp: mt)
  \<comment> \<open>the tick after it, and the same tick with no growth pending\<close>
  define s1 where "s1 = pollKeys win (fst w1)"
  have s1: "growth s1 = 1" "tail s1 = tail m" "head s1 = head m"
    using g1 t1 w1 by (simp_all add: s1_def pollKeys_eq checkCollisions_eq)
  have tne: "tail m \<noteq> []" by (simp add: mt)
  from reachable.tick [OF assms(1,2)] have "reachable (fst w1, snd w1)" by simp
  then have "reachable (s1, snd w1)" unfolding s1_def by (rule reachable.poll)
  from reachable_sane [OF this] have vd: "validDir (nextDirection s1)" by (simp add: sane_def)
  define h2 where "h2 = head (moved s1)"
  from moved_head_moves [OF vd] have h2: "h2 \<noteq> head m" by (simp add: h2_def s1)
  have mt2: "tail (moved s1) = head m # tail m" by (simp add: moved_simps s1)
  have bt2: "tail (moved (s1\<lparr>growth := 0\<rparr>)) = head m # butlast (tail m)"
    by (simp add: moved_simps s1)
  have bh2: "head (moved (s1\<lparr>growth := 0\<rparr>)) = h2"
    by (simp add: h2_def moved_growth_head)
  from advance_Inr(1,2) [OF assms(4)]
  have w2: "head (fst w2) = h2" "tail (fst w2) = takeWhile (\<lambda>p. p \<noteq> h2) (head m # tail m)"
    by (simp_all add: s1_def [symmetric] h2_def [symmetric] mt2)
  from advance_Inr(2) [OF assms(5)]
  have b2: "tail (fst b2) = takeWhile (\<lambda>p. p \<noteq> h2) (head m # butlast (tail m))"
    by (simp add: s1_def [symmetric] bh2 bt2)
  from takeWhile_butlast_length [OF tne, of "\<lambda>p. p \<noteq> h2"]
  have "length (takeWhile (\<lambda>p. p \<noteq> h2) (tail m)) =
        length (takeWhile (\<lambda>p. p \<noteq> h2) (butlast (tail m))) +
          (if h2 \<in> set (tail m) then 0 else 1)"
    by auto
  with h2 have "length (tail (fst w2)) =
      length (tail (fst b2)) + (if h2 \<in> set (tail m) then 0 else 1)"
    by (simp add: w2 b2)
  with g1 t1 len1 mt2 show ?thesis
    by (simp add: w2 s_def [symmetric] m_def [symmetric] s1_def [symmetric])
qed


theorem growth_is_delayed_witness:
  "reachable
     (\<lparr>nextPoint = \<lparr>x = 3, y = 2\<rparr>, growth = 0, direction = CHR ''u'',
       nextDirection = CHR ''u'', head = \<lparr>x = 3, y = 3\<rparr>,
       tail = [\<lparr>x = 3, y = 4\<rparr>, \<lparr>x = 3, y = 5\<rparr>, \<lparr>x = 3, y = 6\<rparr>, \<lparr>x = 3, y = 7\<rparr>, \<lparr>x = 3, y = 8\<rparr>]\<rparr>, \<lambda>i. 0) \<and>
   advance (Suc 0)
     (\<lparr>nextPoint = \<lparr>x = 3, y = 2\<rparr>, growth = 0, direction = CHR ''u'',
       nextDirection = CHR ''u'', head = \<lparr>x = 3, y = 3\<rparr>,
       tail = [\<lparr>x = 3, y = 4\<rparr>, \<lparr>x = 3, y = 5\<rparr>, \<lparr>x = 3, y = 6\<rparr>, \<lparr>x = 3, y = 7\<rparr>, \<lparr>x = 3, y = 8\<rparr>]\<rparr>, \<lambda>i. 0) =
   Inr (\<lparr>nextPoint = \<lparr>x = 1, y = 1\<rparr>, growth = 1, direction = CHR ''u'',
       nextDirection = CHR ''u'', head = \<lparr>x = 3, y = 2\<rparr>,
       tail = [\<lparr>x = 3, y = 3\<rparr>, \<lparr>x = 3, y = 4\<rparr>, \<lparr>x = 3, y = 5\<rparr>, \<lparr>x = 3, y = 6\<rparr>, \<lparr>x = 3, y = 7\<rparr>]\<rparr>, \<lambda>i. 0) \<and>
   advance (Suc 0)
     (pollKeys (press Up)
        \<lparr>nextPoint = \<lparr>x = 1, y = 1\<rparr>, growth = 1, direction = CHR ''u'',
       nextDirection = CHR ''u'', head = \<lparr>x = 3, y = 2\<rparr>,
       tail = [\<lparr>x = 3, y = 3\<rparr>, \<lparr>x = 3, y = 4\<rparr>, \<lparr>x = 3, y = 5\<rparr>, \<lparr>x = 3, y = 6\<rparr>, \<lparr>x = 3, y = 7\<rparr>]\<rparr>, \<lambda>i. 0) =
   Inr (\<lparr>nextPoint = \<lparr>x = 1, y = 1\<rparr>, growth = 0, direction = CHR ''u'',
       nextDirection = CHR ''u'', head = \<lparr>x = 3, y = 1\<rparr>,
       tail = [\<lparr>x = 3, y = 2\<rparr>, \<lparr>x = 3, y = 3\<rparr>, \<lparr>x = 3, y = 4\<rparr>, \<lparr>x = 3, y = 5\<rparr>, \<lparr>x = 3, y = 6\<rparr>, \<lparr>x = 3, y = 7\<rparr>]\<rparr>, \<lambda>i. 0) \<and>
   advance (Suc 0)
     ((pollKeys (press Up)
        \<lparr>nextPoint = \<lparr>x = 1, y = 1\<rparr>, growth = 1, direction = CHR ''u'',
       nextDirection = CHR ''u'', head = \<lparr>x = 3, y = 2\<rparr>,
       tail = [\<lparr>x = 3, y = 3\<rparr>, \<lparr>x = 3, y = 4\<rparr>, \<lparr>x = 3, y = 5\<rparr>, \<lparr>x = 3, y = 6\<rparr>, \<lparr>x = 3, y = 7\<rparr>]\<rparr>)\<lparr>growth := 0\<rparr>, \<lambda>i. 0) =
   Inr (\<lparr>nextPoint = \<lparr>x = 1, y = 1\<rparr>, growth = 0, direction = CHR ''u'',
       nextDirection = CHR ''u'', head = \<lparr>x = 3, y = 1\<rparr>,
       tail = [\<lparr>x = 3, y = 2\<rparr>, \<lparr>x = 3, y = 3\<rparr>, \<lparr>x = 3, y = 4\<rparr>, \<lparr>x = 3, y = 5\<rparr>, \<lparr>x = 3, y = 6\<rparr>]\<rparr>, \<lambda>i. 0)"
proof -
  define w :: "Snake \<times> rand" where "w =
     (\<lparr>nextPoint = \<lparr>x = 3, y = 2\<rparr>, growth = 0, direction = CHR ''u'',
       nextDirection = CHR ''u'', head = \<lparr>x = 3, y = 3\<rparr>,
       tail = [\<lparr>x = 3, y = 4\<rparr>, \<lparr>x = 3, y = 5\<rparr>, \<lparr>x = 3, y = 6\<rparr>, \<lparr>x = 3, y = 7\<rparr>, \<lparr>x = 3, y = 8\<rparr>]\<rparr>, \<lambda>i. 0)"
  define w1 :: "Snake \<times> rand" where "w1 =
     (\<lparr>nextPoint = \<lparr>x = 1, y = 1\<rparr>, growth = 1, direction = CHR ''u'',
       nextDirection = CHR ''u'', head = \<lparr>x = 3, y = 2\<rparr>,
       tail = [\<lparr>x = 3, y = 3\<rparr>, \<lparr>x = 3, y = 4\<rparr>, \<lparr>x = 3, y = 5\<rparr>, \<lparr>x = 3, y = 6\<rparr>, \<lparr>x = 3, y = 7\<rparr>]\<rparr>, \<lambda>i. 0)"
  define w2 :: "Snake \<times> rand" where "w2 =
     (\<lparr>nextPoint = \<lparr>x = 1, y = 1\<rparr>, growth = 0, direction = CHR ''u'',
       nextDirection = CHR ''u'', head = \<lparr>x = 3, y = 1\<rparr>,
       tail = [\<lparr>x = 3, y = 2\<rparr>, \<lparr>x = 3, y = 3\<rparr>, \<lparr>x = 3, y = 4\<rparr>, \<lparr>x = 3, y = 5\<rparr>, \<lparr>x = 3, y = 6\<rparr>, \<lparr>x = 3, y = 7\<rparr>]\<rparr>, \<lambda>i. 0)"
  define b2 :: "Snake \<times> rand" where "b2 =
     (\<lparr>nextPoint = \<lparr>x = 1, y = 1\<rparr>, growth = 0, direction = CHR ''u'',
       nextDirection = CHR ''u'', head = \<lparr>x = 3, y = 1\<rparr>,
       tail = [\<lparr>x = 3, y = 2\<rparr>, \<lparr>x = 3, y = 3\<rparr>, \<lparr>x = 3, y = 4\<rparr>, \<lparr>x = 3, y = 5\<rparr>, \<lparr>x = 3, y = 6\<rparr>]\<rparr>, \<lambda>i. 0)"
  have "generateNextPoint (Suc 0) snake (\<lambda>i. if i = 0 then 2 else if i = 1 then 1 else 0) =
      Some w"
    by (auto simp: w_def exec fun_eq_iff)
  then have reach: "reachable w" by (rule reachable.start)
  have eats: "advance (Suc 0) w = Inr w1"
    by (simp add: w_def w1_def exec)
  have onFood: "head (moved (fst w)) = nextPoint (fst w)"
    by (simp add: w_def moved_def wrapAxis_def deltaX_def deltaY_def)
  have grows: "advance (Suc 0) (pollKeys (press Up) (fst w1), snd w1) = Inr w2"
    by (simp add: w1_def w2_def exec)
  have base: "advance (Suc 0) ((pollKeys (press Up) (fst w1))\<lparr>growth := 0\<rparr>, snd w1) = Inr b2"
    by (simp add: w1_def b2_def exec)
  from growth_is_delayed [OF reach eats onFood grows base] reach eats grows base
  show ?thesis by (simp add: w_def w1_def w2_def b2_def)
qed

theorem growth_is_delayed_counterexample:
  "reachable
     (\<lparr>nextPoint = \<lparr>x = 3, y = 1\<rparr>, growth = 1, direction = CHR ''u'',
       nextDirection = CHR ''u'', head = \<lparr>x = 3, y = 2\<rparr>,
       tail = [\<lparr>x = 3, y = 3\<rparr>, \<lparr>x = 3, y = 4\<rparr>, \<lparr>x = 3, y = 5\<rparr>, \<lparr>x = 3, y = 6\<rparr>, \<lparr>x = 3, y = 7\<rparr>]\<rparr>, \<lambda>i. 0) \<and>
   move \<lparr>nextPoint = \<lparr>x = 3, y = 1\<rparr>, growth = 1, direction = CHR ''u'',
       nextDirection = CHR ''u'', head = \<lparr>x = 3, y = 2\<rparr>,
       tail = [\<lparr>x = 3, y = 3\<rparr>, \<lparr>x = 3, y = 4\<rparr>, \<lparr>x = 3, y = 5\<rparr>, \<lparr>x = 3, y = 6\<rparr>, \<lparr>x = 3, y = 7\<rparr>]\<rparr> =
   Inr \<lparr>nextPoint = \<lparr>x = 3, y = 1\<rparr>, growth = 0, direction = CHR ''u'',
       nextDirection = CHR ''u'', head = \<lparr>x = 3, y = 1\<rparr>,
       tail = [\<lparr>x = 3, y = 2\<rparr>, \<lparr>x = 3, y = 3\<rparr>, \<lparr>x = 3, y = 4\<rparr>, \<lparr>x = 3, y = 5\<rparr>, \<lparr>x = 3, y = 6\<rparr>, \<lparr>x = 3, y = 7\<rparr>]\<rparr> \<and>
   advance (Suc 0)
     (\<lparr>nextPoint = \<lparr>x = 3, y = 1\<rparr>, growth = 1, direction = CHR ''u'',
       nextDirection = CHR ''u'', head = \<lparr>x = 3, y = 2\<rparr>,
       tail = [\<lparr>x = 3, y = 3\<rparr>, \<lparr>x = 3, y = 4\<rparr>, \<lparr>x = 3, y = 5\<rparr>, \<lparr>x = 3, y = 6\<rparr>, \<lparr>x = 3, y = 7\<rparr>]\<rparr>, \<lambda>i. 0) =
   Inr (\<lparr>nextPoint = \<lparr>x = 1, y = 1\<rparr>, growth = 1, direction = CHR ''u'',
       nextDirection = CHR ''u'', head = \<lparr>x = 3, y = 1\<rparr>,
       tail = [\<lparr>x = 3, y = 2\<rparr>, \<lparr>x = 3, y = 3\<rparr>, \<lparr>x = 3, y = 4\<rparr>, \<lparr>x = 3, y = 5\<rparr>, \<lparr>x = 3, y = 6\<rparr>, \<lparr>x = 3, y = 7\<rparr>]\<rparr>, \<lambda>i. 0) \<and>
   length [\<lparr>x = 3, y = 3\<rparr>, \<lparr>x = 3, y = 4\<rparr>, \<lparr>x = 3, y = 5\<rparr>, \<lparr>x = 3, y = 6\<rparr>, \<lparr>x = 3, y = (7::int64)\<rparr>] = 5 \<and>
   length [\<lparr>x = 3, y = 2\<rparr>, \<lparr>x = 3, y = 3\<rparr>, \<lparr>x = 3, y = 4\<rparr>, \<lparr>x = 3, y = 5\<rparr>, \<lparr>x = 3, y = 6\<rparr>, \<lparr>x = 3, y = (7::int64)\<rparr>] = 6"
proof -
  have init: "generateNextPoint (Suc 0) snake
      (\<lambda>i. if i = 0 then 2 else if i = 1 then 1 else if i = 2 then 2 else 0) =
      Some (snake\<lparr>nextPoint := \<lparr>x = 3, y = 2\<rparr>\<rparr>, \<lambda>i. if i = 0 then 2 else 0)"
    by (auto simp: exec fun_eq_iff)
  have first: "run (Suc 0) [Tick]
      (snake\<lparr>nextPoint := \<lparr>x = 3, y = 2\<rparr>\<rparr>, \<lambda>i. if i = 0 then 2 else 0) =
    Inr (\<lparr>nextPoint = \<lparr>x = 3, y = 1\<rparr>, growth = 1, direction = CHR ''u'',
       nextDirection = CHR ''u'', head = \<lparr>x = 3, y = 2\<rparr>,
       tail = [\<lparr>x = 3, y = 3\<rparr>, \<lparr>x = 3, y = 4\<rparr>, \<lparr>x = 3, y = 5\<rparr>, \<lparr>x = 3, y = 6\<rparr>, \<lparr>x = 3, y = 7\<rparr>]\<rparr>, \<lambda>i. 0)"
    by (auto simp: exec fun_eq_iff)
  from run_reachable [OF reachable.start [OF init] first]
  show ?thesis by (simp add: exec)
qed

text \<open>
  C7. When a food placement returns, at the start of the game or after the food was
  eaten, the food cell is neither the head nor a cell of the tail, whatever the head
  and the tail are; the placement changes neither of them.
\<close>

theorem food_off_snake:
  assumes "generateNextPoint k s r = Some (s', r')"
  shows "nextPoint s' \<noteq> head s' \<and> nextPoint s' \<notin> set (tail s') \<and>
         head s' = head s \<and> tail s' = tail s"
proof -
  from generateNextPoint_post [OF assms]
  have eq: "s' = s\<lparr>nextPoint := nextPoint s'\<rparr>" and off: "\<not> onSnake s (nextPoint s')"
    by simp_all
  from arg_cong [OF eq, of head] have "head s' = head s" by simp
  moreover from arg_cong [OF eq, of tail] have "tail s' = tail s" by simp
  ultimately show ?thesis using off by (simp add: onSnake_def)
qed

theorem food_off_snake_witness:
  "generateNextPoint (Suc (Suc 0)) snake (\<lambda>i. if i < 2 then 2 else 5) =
     Some (snake\<lparr>nextPoint := \<lparr>x = 6, y = 6\<rparr>\<rparr>, \<lambda>i. 5) \<and>
   \<lparr>x = 6, y = 6\<rparr> \<noteq> head snake \<and> \<lparr>x = 6, y = 6\<rparr> \<notin> set (tail snake)"
proof -
  have placed: "generateNextPoint (Suc (Suc 0)) snake (\<lambda>i. if i < 2 then 2 else 5) =
     Some (snake\<lparr>nextPoint := \<lparr>x = 6, y = 6\<rparr>\<rparr>, \<lambda>i. 5)"
    by (simp add: snake_def Int63n_def consume_def size'_def)
  from food_off_snake [OF placed] placed show ?thesis by simp
qed

text \<open>
  C8. A pass of the key polling with the one key of direction \<open>d\<close> down records
  \<open>d\<close> as the pending direction exactly when \<open>d\<close> is not the reverse of the
  committed direction; a reversed one leaves the snake as it was, with no error. The
  tick that follows commits the direction that was pending before the rejected key:
  it is still Right when the committed and the pending direction were both Right.
\<close>

theorem reversal_dropped:
  "submitDirection d s =
     (if direction s \<noteq> code (opposite d) then s\<lparr>nextDirection := code d\<rparr> else s) \<and>
   (direction s = code (opposite d) \<and> advance k (submitDirection d s, r) = Inr w' \<longrightarrow>
      direction (fst w') = nextDirection s) \<and>
   (direction s = code Right \<and> nextDirection s = code Right \<and>
    advance k (submitDirection Left s, r) = Inr w' \<longrightarrow>
      direction (fst w') = code Right)"
proof -
  have rec: "submitDirection d s =
     (if direction s \<noteq> code (opposite d) then s\<lparr>nextDirection := code d\<rparr> else s)"
    by (cases d) (simp_all add: submitDirection_def pollKeys_eq)
  have keep: "direction (fst w') = nextDirection s"
    if "direction s = code (opposite d)" and "advance k (submitDirection d s, r) = Inr w'"
    for d
  proof -
    from that(1) have "submitDirection d s = s"
      by (cases d) (simp_all add: submitDirection_def pollKeys_eq)
    with advance_Inr(3) [OF that(2)] show ?thesis by simp
  qed
  from rec keep [of d] keep [of Left] show ?thesis by simp
qed

theorem reversal_dropped_witness:
  "direction (snake\<lparr>nextPoint := \<lparr>x = 1, y = 1\<rparr>, direction := CHR ''r'',
                     nextDirection := CHR ''r''\<rparr>) = code (opposite Left) \<and>
   advance (Suc 0)
     (submitDirection Left (snake\<lparr>nextPoint := \<lparr>x = 1, y = 1\<rparr>, direction := CHR ''r'',
                                   nextDirection := CHR ''r''\<rparr>), \<lambda>i. 0) =
     Inr (snake\<lparr>nextPoint := \<lparr>x = 1, y = 1\<rparr>, direction := CHR ''r'',
                 nextDirection := CHR ''r'', head := \<lparr>x = 4, y = 3\<rparr>,
                 tail := [\<lparr>x = 3, y = 3\<rparr>, \<lparr>x = 3, y = 4\<rparr>, \<lparr>x = 3, y = 5\<rparr>,
                          \<lparr>x = 3, y = 6\<rparr>, \<lparr>x = 3, y = 7\<rparr>]\<rparr>, \<lambda>i. 0) \<and>
   submitDirection Up (snake\<lparr>nextPoint := \<lparr>x = 1, y = 1\<rparr>, direction := CHR ''r'',
                                 nextDirection := CHR ''r''\<rparr>) =
     snake\<lparr>nextPoint := \<lparr>x = 1, y = 1\<rparr>, direction := CHR ''r'', nextDirection := CHR ''u''\<rparr>"
proof -
  define s where "s = snake\<lparr>nextPoint := \<lparr>x = 1, y = 1\<rparr>, direction := CHR ''r'',
                     nextDirection := CHR ''r''\<rparr>"
  define s' where "s' = snake\<lparr>nextPoint := \<lparr>x = 1, y = 1\<rparr>, direction := CHR ''r'',
                 nextDirection := CHR ''r'', head := \<lparr>x = 4, y = 3\<rparr>,
                 tail := [\<lparr>x = 3, y = 3\<rparr>, \<lparr>x = 3, y = 4\<rparr>, \<lparr>x = 3, y = 5\<rparr>,
                          \<lparr>x = 3, y = 6\<rparr>, \<lparr>x = 3, y = 7\<rparr>]\<rparr>"
  have dir: "direction s = code Right" "nextDirection s = code Right"
    by (simp_all add: s_def)
  have adv: "advance (Suc 0) (submitDirection Left s, \<lambda>i. 0) = Inr (s', \<lambda>i. 0)"
    by (simp add: s_def s'_def exec)
  from reversal_dropped [of Left s "Suc 0" "\<lambda>i. 0" "(s', \<lambda>i. 0)"]
    reversal_dropped [of Up s "Suc 0" "\<lambda>i. 0" "(s', \<lambda>i. 0)"] dir adv
  show ?thesis by (simp add: s_def s'_def)
qed

theorem reversal_dropped_counterexample:
  "generateNextPoint (Suc 0) snake (\<lambda>i. 0) =
     Some (snake\<lparr>nextPoint := \<lparr>x = 1, y = 1\<rparr>\<rparr>, \<lambda>i. 0) \<and>
   run (Suc 0) [Poll (press Right), Tick, Poll (press Up)]
     (snake\<lparr>nextPoint := \<lparr>x = 1, y = 1\<rparr>\<rparr>, \<lambda>i. 0) =
     Inr (\<lparr>nextPoint = \<lparr>x = 1, y = 1\<rparr>, growth = 0, direction = CHR ''r'',
            nextDirection = CHR ''u'', head = \<lparr>x = 4, y = 3\<rparr>,
            tail = [\<lparr>x = 3, y = 3\<rparr>, \<lparr>x = 3, y = 4\<rparr>, \<lparr>x = 3, y = 5\<rparr>,
                    \<lparr>x = 3, y = 6\<rparr>, \<lparr>x = 3, y = 7\<rparr>]\<rparr>, \<lambda>i. 0) \<and>
   reachable (\<lparr>nextPoint = \<lparr>x = 1, y = 1\<rparr>, growth = 0, direction = CHR ''r'',
            nextDirection = CHR ''u'', head = \<lparr>x = 4, y = 3\<rparr>,
            tail = [\<lparr>x = 3, y = 3\<rparr>, \<lparr>x = 3, y = 4\<rparr>, \<lparr>x = 3, y = 5\<rparr>,
                    \<lparr>x = 3, y = 6\<rparr>, \<lparr>x = 3, y = 7\<rparr>]\<rparr>, \<lambda>i. 0) \<and>
   advance (Suc 0)
     (submitDirection Left
        \<lparr>nextPoint = \<lparr>x = 1, y = 1\<rparr>, growth = 0, direction = CHR ''r'',
           nextDirection = CHR ''u'', head = \<lparr>x = 4, y = 3\<rparr>,
           tail = [\<lparr>x = 3, y = 3\<rparr>, \<lparr>x = 3, y = 4\<rparr>, \<lparr>x = 3, y = 5\<rparr>,
                   \<lparr>x = 3, y = 6\<rparr>, \<lparr>x = 3, y = 7\<rparr>]\<rparr>, \<lambda>i. 0) =
     Inr (\<lparr>nextPoint = \<lparr>x = 1, y = 1\<rparr>, growth = 0, direction = CHR ''u'',
            nextDirection = CHR ''u'', head = \<lparr>x = 4, y = 2\<rparr>,
            tail = [\<lparr>x = 4, y = 3\<rparr>, \<lparr>x = 3, y = 3\<rparr>, \<lparr>x = 3, y = 4\<rparr>,
                    \<lparr>x = 3, y = 5\<rparr>, \<lparr>x = 3, y = 6\<rparr>]\<rparr>, \<lambda>i. 0)"
proof -
  have init: "generateNextPoint (Suc 0) snake (\<lambda>i. 0) =
     Some (snake\<lparr>nextPoint := \<lparr>x = 1, y = 1\<rparr>\<rparr>, \<lambda>i. 0)"
    by (simp add: exec)
  have steps: "run (Suc 0) [Poll (press Right), Tick, Poll (press Up)]
     (snake\<lparr>nextPoint := \<lparr>x = 1, y = 1\<rparr>\<rparr>, \<lambda>i. 0) =
     Inr (\<lparr>nextPoint = \<lparr>x = 1, y = 1\<rparr>, growth = 0, direction = CHR ''r'',
            nextDirection = CHR ''u'', head = \<lparr>x = 4, y = 3\<rparr>,
            tail = [\<lparr>x = 3, y = 3\<rparr>, \<lparr>x = 3, y = 4\<rparr>, \<lparr>x = 3, y = 5\<rparr>,
                    \<lparr>x = 3, y = 6\<rparr>, \<lparr>x = 3, y = 7\<rparr>]\<rparr>, \<lambda>i. 0)"
    by (simp add: exec)
  from run_reachable [OF reachable.start [OF init] steps] init steps
  show ?thesis by (simp add: exec)
qed

text \<open>
  C9. With \<open>N = 10\<close>, one tick from the initial snake (head \<open>(3,3)\<close>, tail
  \<open>(3,4)\<close> to \<open>(3,8)\<close>, direction Up, no growth pending, no pending change of
  direction) gives head \<open>(3,2)\<close> and tail \<open>(3,3)\<close> to \<open>(3,7)\<close>: the length is kept
  and the oldest cell \<open>(3,8)\<close> is dropped. This holds wherever the food \<open>np\<close> is;
  when the food is not the cell \<open>(3,2)\<close> the tick returns and changes nothing else.
\<close>

theorem first_tick_scenario:
  "(np \<noteq> \<lparr>x = 3, y = 2\<rparr> \<longrightarrow>
      advance k (snake\<lparr>nextPoint := np\<rparr>, r) =
        Inr (snake\<lparr>nextPoint := np, head := \<lparr>x = 3, y = 2\<rparr>,
               tail := [\<lparr>x = 3, y = 3\<rparr>, \<lparr>x = 3, y = 4\<rparr>, \<lparr>x = 3, y = 5\<rparr>,
                        \<lparr>x = 3, y = 6\<rparr>, \<lparr>x = 3, y = 7\<rparr>]\<rparr>, r)) \<and>
   (\<forall>w'. advance k (snake\<lparr>nextPoint := np\<rparr>, r) = Inr w' \<longrightarrow>
      head (fst w') = \<lparr>x = 3, y = 2\<rparr> \<and>
      tail (fst w') = [\<lparr>x = 3, y = 3\<rparr>, \<lparr>x = 3, y = 4\<rparr>, \<lparr>x = 3, y = 5\<rparr>,
                       \<lparr>x = 3, y = 6\<rparr>, \<lparr>x = 3, y = 7\<rparr>])"
proof (intro conjI impI allI)
  assume "np \<noteq> \<lparr>x = 3, y = 2\<rparr>"
  then show "advance k (snake\<lparr>nextPoint := np\<rparr>, r) =
        Inr (snake\<lparr>nextPoint := np, head := \<lparr>x = 3, y = 2\<rparr>,
               tail := [\<lparr>x = 3, y = 3\<rparr>, \<lparr>x = 3, y = 4\<rparr>, \<lparr>x = 3, y = 5\<rparr>,
                        \<lparr>x = 3, y = 6\<rparr>, \<lparr>x = 3, y = 7\<rparr>]\<rparr>, r)"
    by (auto simp add: advance_def move_def checkPoint_def checkCollisions_def snake_def Let_def)
next
  fix w'
  assume "advance k (snake\<lparr>nextPoint := np\<rparr>, r) = Inr w'"
  from advance_Inr(1,2) [OF this]
  show "head (fst w') = \<lparr>x = 3, y = 2\<rparr>"
    and "tail (fst w') = [\<lparr>x = 3, y = 3\<rparr>, \<lparr>x = 3, y = 4\<rparr>, \<lparr>x = 3, y = 5\<rparr>,
                       \<lparr>x = 3, y = 6\<rparr>, \<lparr>x = 3, y = 7\<rparr>]"
    by (simp_all add: moved_def snake_def wrapAxis_def deltaX_def deltaY_def)
qed

theorem first_tick_scenario_witness:
  "\<lparr>x = 1, y = 1\<rparr> \<noteq> \<lparr>x = 3, y = (2::int64)\<rparr> \<and>
   advance 1 (snake\<lparr>nextPoint := \<lparr>x = 1, y = 1\<rparr>\<rparr>, \<lambda>i. 0) =
     Inr (snake\<lparr>nextPoint := \<lparr>x = 1, y = 1\<rparr>, head := \<lparr>x = 3, y = 2\<rparr>,
            tail := [\<lparr>x = 3, y = 3\<rparr>, \<lparr>x = 3, y = 4\<rparr>, \<lparr>x = 3, y = 5\<rparr>,
                     \<lparr>x = 3, y = 6\<rparr>, \<lparr>x = 3, y = 7\<rparr>]\<rparr>, \<lambda>i. 0)"
  using first_tick_scenario [of "\<lparr>x = 1, y = 1\<rparr>" 1 "\<lambda>i. 0"] by simp

text \<open>
  C10. In every reachable state the tail is not empty. The slice of \<open>move\<close> is in
  bounds there and the rebuilt tail is no shorter than the old one; its first cell is
  the head before the move, which the moved head never equals, so the cut of
  \<open>checkCollisions\<close> keeps at least that cell.
\<close>

theorem tail_never_empty:
  assumes "reachable w"
  shows "tail (fst w) \<noteq> [] \<and> move (fst w) = Inr (moved (fst w)) \<and>
         length (tail (fst w)) \<le> length (tail (moved (fst w))) \<and>
         hd (tail (moved (fst w))) = head (fst w) \<and>
         head (moved (fst w)) \<noteq> head (fst w) \<and>
         tail (checkCollisions (moved (fst w))) \<noteq> []"
proof -
  from reachable_sane [OF assms] have ne: "tail (fst w) \<noteq> []"
    and vd: "validDir (nextDirection (fst w))"
    by (simp_all add: sane_def)
  from ne have "move (fst w) = Inr (moved (fst w))" by (simp add: move_eq)
  moreover from ne have "length (tail (fst w)) \<le> length (tail (moved (fst w)))"
    by (simp add: moved_simps)
  moreover have "hd (tail (moved (fst w))) = head (fst w)" by (simp add: moved_simps)
  moreover note mh = moved_head_moves [OF vd]
  moreover from mh have "tail (checkCollisions (moved (fst w))) \<noteq> []"
    by (simp add: checkCollisions_eq moved_simps)
  ultimately show ?thesis using ne by simp
qed

theorem tail_never_empty_witness:
  "reachable (snake\<lparr>nextPoint := \<lparr>x = 1, y = 1\<rparr>\<rparr>, \<lambda>i. 0) \<and>
   tail (snake\<lparr>nextPoint := \<lparr>x = 1, y = 1\<rparr>\<rparr>) \<noteq> [] \<and>
   head (moved (snake\<lparr>nextPoint := \<lparr>x = 1, y = 1\<rparr>\<rparr>)) \<noteq> head snake"
proof -
  have "generateNextPoint (Suc 0) snake (\<lambda>i. 0) =
      Some (snake\<lparr>nextPoint := \<lparr>x = 1, y = 1\<rparr>\<rparr>, \<lambda>i. 0)"
    by (simp add: exec)
  then have init: "reachable (snake\<lparr>nextPoint := \<lparr>x = 1, y = 1\<rparr>\<rparr>, \<lambda>i. 0)"
    by (rule reachable.start)
  from tail_never_empty [OF init] init show ?thesis by simp
qed

end
